theory Spec2Isabelle
  imports Complex_Main
begin

section \<open>Regions and the region store (useDashboardRegions)\<close>

text \<open>
  A \<open>DashboardRegion\<close> is a record of strings and two numbers. JavaScript numbers are
  modelled as reals: the store and the map only copy coordinates, they never compute with
  them. The optional fields \<open>country\<close> and \<open>admin\<close> are options (absent and \<open>null\<close>
  are not told apart). The field \<open>id\<close> is written \<open>id'\<close> because \<open>id\<close> is the identity
  function of HOL.
\<close>

record DashboardRegion =
  id' :: string
  name :: string
  label :: string
  lat :: real
  lon :: real
  country :: "string option"
  admin :: "string option"

definition MAX_REGIONS :: nat where
  "MAX_REGIONS = 6"

definition DEFAULT_REGION :: DashboardRegion where
  "DEFAULT_REGION =
     \<lparr> id' = ''default-nyc'', name = ''New York City'', label = ''New York City, NY'',
       lat = 40.7128, lon = - 74.0060, country = Some ''US'', admin = Some ''NY'' \<rparr>"

text \<open>
  The state of the hook: the two persisted values \<open>regions\<close> and \<open>activeId\<close>
  (\<open>string | null\<close>) and the in-memory \<open>temporary\<close> region (\<open>DashboardRegion | null\<close>).
  \<open>useLocalStorage\<close> is used as a state cell whose setter takes a value or an updater.
\<close>

record store =
  regions :: "DashboardRegion list"
  activeId :: "string option"
  temporary :: "DashboardRegion option"

text \<open>Nothing persisted yet: both storage keys give their initial values.\<close>

definition empty_storage :: store where
  "empty_storage = \<lparr> regions = [], activeId = None, temporary = None \<rparr>"

text \<open>
  JavaScript truthiness of a \<open>string | null\<close>: \<open>null\<close> and the empty string are falsy.
  An object (\<open>temporary\<close>, an array element) is truthy whenever it is not \<open>null\<close>.
\<close>

definition truthy :: "string option \<Rightarrow> bool" where
  "truthy a = (case a of None \<Rightarrow> False | Some s \<Rightarrow> s \<noteq> [])"

text \<open>The effect of lines 34-43: it returns early when a temporary region or an active id is set.\<close>

definition bootstrap :: "store \<Rightarrow> store" where
  "bootstrap s =
     (if temporary s \<noteq> None \<or> truthy (activeId s) then s
      else (case regions s of
              r # _ \<Rightarrow> s\<lparr>activeId := Some (id' r)\<rparr>
            | [] \<Rightarrow> s\<lparr>activeId := Some (id' DEFAULT_REGION), regions := [DEFAULT_REGION]\<rparr>))"

text \<open>The memo \<open>activeRegion\<close> (the spec's \<open>currentSelection()\<close>); \<open>find\<close> returns the first match.\<close>

definition activeRegion :: "store \<Rightarrow> DashboardRegion option" where
  "activeRegion s =
     (case temporary s of
        Some t \<Rightarrow> Some t
      | None \<Rightarrow>
          (if \<not> truthy (activeId s) then None
           else find (\<lambda>region. Some (id' region) = activeId s) (regions s)))"

text \<open>
  \<open>!!temporary && (!activeId || temporary.id !== activeId)\<close>. The strict inequality of a
  string and \<open>null\<close> is true, which the comparison of options gives as well.
\<close>

definition isTemporary :: "store \<Rightarrow> bool" where
  "isTemporary s =
     (case temporary s of
        None \<Rightarrow> False
      | Some t \<Rightarrow> \<not> truthy (activeId s) \<or> Some (id' t) \<noteq> activeId s)"

text \<open>The updater passed to \<open>setRegions\<close> by \<open>upsertRegion\<close>, and the operation on the store.\<close>

definition upsert :: "DashboardRegion \<Rightarrow> DashboardRegion list \<Rightarrow> DashboardRegion list" where
  "upsert region prev =
     (let filtered = filter (\<lambda>item. id' item \<noteq> id' region) prev
      in take MAX_REGIONS (region # filtered))"

definition upsertRegion :: "DashboardRegion \<Rightarrow> store \<Rightarrow> store" where
  "upsertRegion region s = s\<lparr>regions := upsert region (regions s)\<rparr>"

text \<open>\<open>activateRegion(region, options)\<close>; \<open>persist\<close> is \<open>options?.persist !== false\<close>.\<close>

definition activateRegion :: "DashboardRegion \<Rightarrow> bool \<Rightarrow> store \<Rightarrow> store" where
  "activateRegion region persist s =
     (if \<not> persist then
        (let s1 = s\<lparr>temporary := Some region\<rparr>
         in if truthy (activeId s) then s1\<lparr>activeId := None\<rparr> else s1)
      else (upsertRegion region (s\<lparr>temporary := None\<rparr>))\<lparr>activeId := Some (id' region)\<rparr>)"

definition selectExisting :: "string \<Rightarrow> store \<Rightarrow> store" where
  "selectExisting i s =
     (case find (\<lambda>item. id' item = i) (regions s) of
        None \<Rightarrow> s
      | Some _ \<Rightarrow> s\<lparr>temporary := None, activeId := Some i\<rparr>)"

text \<open>
  \<open>removeRegion(id)\<close>: the updater filters the list and, when the active id is the removed
  one, sets the active id to \<open>next[0]\<close>'s id or to \<open>null\<close>; then \<open>temporary?.id === id\<close>
  decides whether the temporary region is dropped.
\<close>

definition removeRegion :: "string \<Rightarrow> store \<Rightarrow> store" where
  "removeRegion i s =
     (let next = filter (\<lambda>item. id' item \<noteq> i) (regions s);
          s1 = (if activeId s = Some i
                then s\<lparr>activeId := (case next of fallback # _ \<Rightarrow> Some (id' fallback) | [] \<Rightarrow> None)\<rparr>
                else s);
          s2 = s1\<lparr>regions := next\<rparr>
      in if map_option id' (temporary s) = Some i then s2\<lparr>temporary := None\<rparr> else s2)"

definition persistTemporary :: "store \<Rightarrow> store" where
  "persistTemporary s =
     (case temporary s of
        None \<Rightarrow> s
      | Some t \<Rightarrow> (upsertRegion t (s\<lparr>temporary := None\<rparr>))\<lparr>activeId := Some (id' t)\<rparr>)"

definition clearTemporary :: "store \<Rightarrow> store" where
  "clearTemporary s =
     (let s1 = s\<lparr>temporary := None\<rparr>
      in (case regions s of
            r # _ \<Rightarrow> if \<not> truthy (activeId s) then s1\<lparr>activeId := Some (id' r)\<rparr> else s1
          | [] \<Rightarrow> s1))"

text \<open>The invariant of the saved list: at most \<open>MAX_REGIONS\<close> entries, ids pairwise distinct.\<close>

definition saved_ok :: "DashboardRegion list \<Rightarrow> bool" where
  "saved_ok rs = (length rs \<le> MAX_REGIONS \<and> distinct (map id' rs))"

text \<open>A sequence of \<open>upsert\<close> calls, and every list the store holds along the way.\<close>

fun upserts :: "DashboardRegion list \<Rightarrow> DashboardRegion list \<Rightarrow> DashboardRegion list" where
  "upserts rs [] = rs"
| "upserts rs (u # us) = upserts (upsert u rs) us"

fun upsert_trace :: "DashboardRegion list \<Rightarrow> DashboardRegion list \<Rightarrow> DashboardRegion list list" where
  "upsert_trace rs [] = [rs]"
| "upsert_trace rs (u # us) = rs # upsert_trace (upsert u rs) us"

text \<open>
  The states of the store: it starts from what storage holds, with no temporary
  selection, and then the effect and the operations the hook returns run in any order.
\<close>

inductive reachable :: "store \<Rightarrow> bool" where
  loaded: "saved_ok rs \<Longrightarrow> reachable \<lparr> regions = rs, activeId = a, temporary = None \<rparr>"
| after_bootstrap: "reachable s \<Longrightarrow> reachable (bootstrap s)"
| after_activate: "reachable s \<Longrightarrow> reachable (activateRegion r persist s)"
| after_select: "reachable s \<Longrightarrow> reachable (selectExisting i s)"
| after_remove: "reachable s \<Longrightarrow> reachable (removeRegion i s)"
| after_persist: "reachable s \<Longrightarrow> reachable (persistTemporary s)"
| after_clear: "reachable s \<Longrightarrow> reachable (clearTemporary s)"


section \<open>The map view (AqiMap, MapCenterController, MapEventHandler)\<close>

text \<open>
  Coordinates are pairs \<open>(lat, lon)\<close>. The component state is the prop \<open>center\<close> and the
  three state cells \<open>mapCenter\<close>, \<open>shouldUpdateCenter\<close>, \<open>userHasPanned\<close>; \<open>view\<close> is
  the center the map surface itself shows, which \<open>map.setView\<close> and the user's gestures
  change; \<open>listening\<close> says whether a \<open>movestart\<close> listener is registered on the map
  (\<open>map.on\<close> has run and \<open>map.off\<close> has not). \<open>FOLLOWING\<close> is
  \<open>userHasPanned = False\<close>, \<open>PANNED\<close> is \<open>userHasPanned = True\<close>.
\<close>

type_synonym coord = "real \<times> real"

record map_view =
  center :: "coord option"
  mapCenter :: coord
  shouldUpdateCenter :: bool
  userHasPanned :: bool
  view :: coord
  listening :: bool

text \<open>The effect of lines 111-118, with dependencies \<open>[center, userHasPanned]\<close>.\<close>

definition center_effect :: "map_view \<Rightarrow> map_view" where
  "center_effect s =
     (case center s of
        Some c \<Rightarrow>
          if \<not> userHasPanned s then s\<lparr>mapCenter := c, shouldUpdateCenter := True\<rparr>
          else s\<lparr>shouldUpdateCenter := False\<rparr>
      | None \<Rightarrow> s\<lparr>shouldUpdateCenter := False\<rparr>)"

definition handleRecenterMap :: "map_view \<Rightarrow> map_view" where
  "handleRecenterMap s =
     (case center s of
        Some c \<Rightarrow> s\<lparr>mapCenter := c, shouldUpdateCenter := True, userHasPanned := False\<rparr>
      | None \<Rightarrow> s)"

text \<open>
  \<open>handleMapMove\<close> is the listener that \<open>MapEventHandler\<close> registers with
  \<open>map.on('movestart', onMoveStart)\<close>. It takes no argument: the event's origin is not
  looked at.
\<close>

definition handleMapMove :: "map_view \<Rightarrow> map_view" where
  "handleMapMove s = s\<lparr>userHasPanned := True, shouldUpdateCenter := False\<rparr>"

text \<open>
  The effect of \<open>MapEventHandler\<close> (lines 38-43), dependencies \<open>[map, onMoveStart]\<close>:
  its body registers the listener, its cleanup removes it. When the map raises
  \<open>movestart\<close>, the listener runs if one is registered.
\<close>

definition handler_effect :: "map_view \<Rightarrow> map_view" where
  "handler_effect s = s\<lparr>listening := True\<rparr>"

definition handler_cleanup :: "map_view \<Rightarrow> map_view" where
  "handler_cleanup s = s\<lparr>listening := False\<rparr>"

definition raise_movestart :: "map_view \<Rightarrow> map_view" where
  "raise_movestart s = (if listening s then handleMapMove s else s)"

text \<open>
  \<open>map.setView(center, map.getZoom())\<close> belongs to the map library, which is not part of
  the sources. It moves the view. Whether the surface raises \<open>movestart\<close> for such a
  programmatic move is the parameter \<open>programmatic_movestart\<close>: a surface that raises
  it whenever the view really moves is \<open>True\<close>, one that reports user gestures only is
  \<open>False\<close>. The results below hold for both.
\<close>

definition setView :: "bool \<Rightarrow> coord \<Rightarrow> map_view \<Rightarrow> map_view" where
  "setView programmatic_movestart c s =
     (let s1 = s\<lparr>view := c\<rparr>
      in if programmatic_movestart \<and> view s \<noteq> c then raise_movestart s1 else s1)"

text \<open>The effect of \<open>MapCenterController\<close> (lines 25-29), dependencies \<open>[map, center, shouldUpdate]\<close>.\<close>

definition controller_effect :: "bool \<Rightarrow> map_view \<Rightarrow> map_view" where
  "controller_effect programmatic_movestart s =
     (if shouldUpdateCenter s then setView programmatic_movestart (mapCenter s) s else s)"

text \<open>
  One commit of the two children of the map after \<open>AqiMap\<close> has rendered.
  \<open>handleMapMove\<close> (line 128) is a new function on every render of \<open>AqiMap\<close>, so the
  effect of \<open>MapEventHandler\<close> is torn down and set up again in every such commit. The
  effect of \<open>MapCenterController\<close> runs again only after \<open>mapCenter\<close> or
  \<open>shouldUpdateCenter\<close> changed, which is a render of \<open>AqiMap\<close> too. In a commit all
  cleanups run before any effect body, and the bodies run in the order of the elements
  (\<open>MapCenterController\<close> on line 174, \<open>MapEventHandler\<close> on line 175): \<open>map.off\<close>,
  then \<open>map.setView\<close>, then \<open>map.on\<close>. \<open>rerender\<close> is the commit in which the
  controller's dependencies are unchanged.
\<close>

definition commit :: "bool \<Rightarrow> map_view \<Rightarrow> map_view" where
  "commit m s = handler_effect (controller_effect m (handler_cleanup s))"

definition rerender :: "map_view \<Rightarrow> map_view" where
  "rerender s = handler_effect (handler_cleanup s)"

text \<open>
  The events of the component: the parent passes a new \<open>center\<close>, the user drags the map
  to some place, the user presses the Recenter button. After the handler of an event the
  component renders and commits until nothing changes; the effect of \<open>AqiMap\<close> runs
  after those of its children:
  \<^item> a new \<open>center\<close> renders and runs \<open>center_effect\<close>; the new \<open>mapCenter\<close> array
    renders again, and the commit runs the controller's effect; \<open>center_effect\<close> runs
    again if \<open>userHasPanned\<close> changed;
  \<^item> a drag moves the view and raises \<open>movestart\<close> between commits; if
    \<open>userHasPanned\<close> changed, the component renders, commits and runs \<open>center_effect\<close>;
  \<^item> the button runs \<open>handleRecenterMap\<close>, which does nothing without a \<open>center\<close>;
    otherwise the commit runs the controller's effect on the new \<open>mapCenter\<close>, then
    \<open>center_effect\<close> runs and a second commit follows.
\<close>

datatype map_event = SelectionChange coord | UserPan coord | Recenter

definition step :: "bool \<Rightarrow> map_event \<Rightarrow> map_view \<Rightarrow> map_view" where
  "step m ev s =
     (case ev of
        SelectionChange c \<Rightarrow>
          (let s1 = center_effect (rerender (s\<lparr>center := Some c\<rparr>));
               s2 = commit m s1
           in if userHasPanned s2 \<noteq> userHasPanned s1 then center_effect s2 else s2)
      | UserPan p \<Rightarrow>
          (let s1 = raise_movestart (s\<lparr>view := p\<rparr>)
           in if userHasPanned s1 \<noteq> userHasPanned s then center_effect (commit m s1) else s1)
      | Recenter \<Rightarrow>
          (case center s of
             None \<Rightarrow> s
           | Some _ \<Rightarrow> commit m (center_effect (commit m (handleRecenterMap s)))))"

fun steps :: "bool \<Rightarrow> map_event list \<Rightarrow> map_view \<Rightarrow> map_view" where
  "steps m [] s = s"
| "steps m (ev # evs) s = steps m evs (step m ev s)"

text \<open>A drag is the only event that comes from the user's movement of the map.\<close>

fun is_pan :: "map_event \<Rightarrow> bool" where
  "is_pan (UserPan p) = True"
| "is_pan ev = False"

text \<open>
  The state \<open>FOLLOWING\<close> with the region at \<open>a\<close> active and shown, at rest: the
  listener is registered.
\<close>

definition following :: "coord \<Rightarrow> map_view" where
  "following a =
     \<lparr> center = Some a, mapCenter = a, shouldUpdateCenter = True, userHasPanned = False,
       view = a, listening = True \<rparr>"

section \<open>Text search (LocationPanel)\<close>

text \<open>
  The search state of the panel, the timer armed through \<open>searchTimeoutRef\<close> and a clock.
  Every \<open>setTimeout\<close> of the panel's search is preceded by \<open>clearTimeout\<close> of the handle
  stored last, so at most one timer is armed: \<open>pending\<close> holds its due time and the value
  its callback captured. \<open>issued\<close> is not program state: it records each \<open>fetch\<close> with
  the time it was made. The type \<open>'r\<close> is \<open>LocationSearchResult\<close>, of which the panel's
  search only looks at the number of entries. Times are milliseconds.
\<close>

record 'r panel =
  searchQuery :: string
  searchResults :: "'r list"
  isSearching :: bool
  showResults :: bool
  pending :: "(nat \<times> string) option"
  now :: nat
  issued :: "(nat \<times> string) list"

definition init_panel :: "'r panel" where
  "init_panel =
     \<lparr> searchQuery = [], searchResults = [], isSearching = False, showResults = False,
       pending = None, now = 0, issued = [] \<rparr>"

text \<open>
  How a request ends: a body with results, or any failure (network error, a response that
  is not ok, a body that does not parse), which the \<open>catch\<close> branch handles.
\<close>

datatype 'r response = Ok "'r list" | Failed

text \<open>\<open>performSearch\<close> up to its \<open>await\<close>: short queries clear the results and make no request.\<close>

definition performSearch_begin :: "string \<Rightarrow> 'r panel \<Rightarrow> 'r panel" where
  "performSearch_begin query s =
     (if length query < 2 then s\<lparr>searchResults := [], showResults := False\<rparr>
      else s\<lparr>isSearching := True, issued := issued s @ [(now s, query)]\<rparr>)"

text \<open>
  \<open>performSearch\<close> after its \<open>await\<close>, when the response of the request for \<open>query\<close>
  arrives: \<open>try\<close>, \<open>catch\<close> and \<open>finally\<close>. The body does not read \<open>query\<close> again.
\<close>

definition performSearch_resume :: "string \<Rightarrow> 'r response \<Rightarrow> 'r panel \<Rightarrow> 'r panel" where
  "performSearch_resume query resp s =
     (case resp of
        Ok results \<Rightarrow>
          s\<lparr>searchResults := results, showResults := (length results > 0), isSearching := False\<rparr>
      | Failed \<Rightarrow> s\<lparr>searchResults := [], showResults := False, isSearching := False\<rparr>)"

fun arrivals :: "(string \<times> 'r response) list \<Rightarrow> 'r panel \<Rightarrow> 'r panel" where
  "arrivals [] s = s"
| "arrivals ((q, resp) # rest) s = arrivals rest (performSearch_resume q resp s)"

text \<open>The query of the request issued last, if any.\<close>

definition latest_issued :: "'r panel \<Rightarrow> string option" where
  "latest_issued s = (case issued s of [] \<Rightarrow> None | _ \<Rightarrow> Some (snd (last (issued s))))"

text \<open>\<open>handleSearchChange\<close>: \<open>clearTimeout\<close> of the armed timer, then \<open>setTimeout(..., 300)\<close>.\<close>

definition handleSearchChange :: "string \<Rightarrow> 'r panel \<Rightarrow> 'r panel" where
  "handleSearchChange v s = s\<lparr>searchQuery := v, pending := Some (now s + 300, v)\<rparr>"

text \<open>The armed timer fires: its callback calls \<open>performSearch\<close> with the captured value.\<close>

definition timer_fire :: "'r panel \<Rightarrow> 'r panel" where
  "timer_fire s =
     (case pending s of
        None \<Rightarrow> s
      | Some (due, v) \<Rightarrow> performSearch_begin v (s\<lparr>pending := None, now := due\<rparr>))"

text \<open>
  The event loop between two keystrokes. A timer due before the next keystroke fires
  first. When a timer falls due at the very instant of a keystroke, the source does not
  say which of the two runs first: that is the host's choice, here the parameter \<open>tie\<close>.
\<close>

datatype tie = KeystrokeFirst | TimerFirst

definition advance :: "tie \<Rightarrow> nat \<Rightarrow> 'r panel \<Rightarrow> 'r panel" where
  "advance tb t s =
     (case pending s of
        None \<Rightarrow> s\<lparr>now := t\<rparr>
      | Some (due, v) \<Rightarrow>
          if due < t \<or> (due = t \<and> tb = TimerFirst) then (timer_fire s)\<lparr>now := t\<rparr>
          else s\<lparr>now := t\<rparr>)"

fun keystrokes :: "tie \<Rightarrow> (nat \<times> string) list \<Rightarrow> 'r panel \<Rightarrow> 'r panel" where
  "keystrokes tb [] s = s"
| "keystrokes tb ((t, v) # ks) s = keystrokes tb ks (handleSearchChange v (advance tb t s))"

text \<open>Typing a sequence of timed keystrokes into a fresh panel and letting the last timer fire.\<close>

definition typing :: "tie \<Rightarrow> (nat \<times> string) list \<Rightarrow> 'r panel" where
  "typing tb ks = timer_fire (keystrokes tb ks init_panel)"

text \<open>
  What debouncing means, written from its description and not from the code: a keystroke
  leads to a request 300 ms later when its text has at least 2 characters and no other
  keystroke comes first; at a tie the parameter decides.
\<close>

fun due_requests :: "tie \<Rightarrow> (nat \<times> string) list \<Rightarrow> (nat \<times> string) list" where
  "due_requests tb [] = []"
| "due_requests tb [(t, v)] = (if length v < 2 then [] else [(t + 300, v)])"
| "due_requests tb ((t, v) # (t', v') # ks) =
     (if (t + 300 < t' \<or> (t + 300 = t' \<and> tb = TimerFirst)) \<and> \<not> length v < 2
      then [(t + 300, v)] else [])
     @ due_requests tb ((t', v') # ks)"

section \<open>Device location (useCurrentLocation)\<close>

definition NYC_COORDINATES :: coord where
  "NYC_COORDINATES = (40.7128, - 74.006)"

record geo =
  coords :: "coord option"
  locating :: bool

text \<open>
  What the platform answers to one request: no \<open>geolocation\<close> in \<open>navigator\<close>, the success
  callback with a position, or the error callback (denied, unavailable, or the timeout of
  8 seconds). A promise settles as fulfilled with a value or as rejected.
\<close>

datatype device = Unsupported | Position real real | PositionError

datatype 'a settled = Fulfilled 'a | Rejected

definition on_position :: "real \<Rightarrow> real \<Rightarrow> geo \<Rightarrow> geo \<times> coord option settled" where
  "on_position la lo s =
     (let next = (la, lo)
      in (s\<lparr>coords := Some next, locating := False\<rparr>, Fulfilled (Some next)))"

definition on_error :: "geo \<Rightarrow> geo \<times> coord option settled" where
  "on_error s =
     (s\<lparr>coords := Some NYC_COORDINATES, locating := False\<rparr>, Fulfilled (Some NYC_COORDINATES))"

text \<open>\<open>request\<close>: the state while the call is outstanding, and the state and value once settled.\<close>

definition request_begin :: "device \<Rightarrow> geo \<Rightarrow> geo" where
  "request_begin d s =
     (case d of
        Unsupported \<Rightarrow> s\<lparr>coords := Some NYC_COORDINATES, locating := False\<rparr>
      | _ \<Rightarrow> s\<lparr>locating := True\<rparr>)"

definition request :: "device \<Rightarrow> geo \<Rightarrow> geo \<times> coord option settled" where
  "request d s =
     (case d of
        Unsupported \<Rightarrow> (request_begin d s, Fulfilled (Some NYC_COORDINATES))
      | Position la lo \<Rightarrow> on_position la lo (request_begin d s)
      | PositionError \<Rightarrow> on_error (request_begin d s))"

text \<open>
  \<open>regionFromCoordinates\<close> with its default label; \<open>toFixed n x\<close> stands for the number
  formatting \<open>x.toFixed(n)\<close>, which is taken as a parameter.
\<close>

definition regionFromCoordinates :: "(nat \<Rightarrow> real \<Rightarrow> string) \<Rightarrow> real \<Rightarrow> real \<Rightarrow> DashboardRegion" where
  "regionFromCoordinates toFixed la lo =
     \<lparr> id' = ''geo:'' @ toFixed 3 la @ '','' @ toFixed 3 lo,
       name = ''Current location'',
       label = ''Current location ('' @ toFixed 2 la @ '', '' @ toFixed 2 lo @ '')'',
       lat = la, lon = lo, country = None, admin = None \<rparr>"

text \<open>
  The region that \<open>handleLocationSelect\<close> of the search panel builds from a picked result
  and activates without persisting it. \<open>slug\<close> stands for
  the lower-casing of the name with each run of white space replaced by a hyphen, and
  \<open>stamp\<close> for the digits of \<open>Date.now()\<close>.
\<close>

definition regionFromSearch ::
  "(string \<Rightarrow> string) \<Rightarrow> string \<Rightarrow> string \<Rightarrow> string \<Rightarrow> real \<Rightarrow> real \<Rightarrow> string option
     \<Rightarrow> DashboardRegion" where
  "regionFromSearch slug stamp nm lbl la lo st =
     \<lparr> id' = ''search-'' @ slug nm @ ''-'' @ stamp, name = nm, label = lbl,
       lat = la, lon = lo, country = None, admin = st \<rparr>"

text \<open>
  \<open>handleUseCurrent\<close> of the dashboard: it awaits \<open>request()\<close>, returns on \<open>null\<close>, and
  otherwise activates the region of the coordinates without persisting it. A rejected
  promise would surface as an error of the handler.
\<close>

definition handleUseCurrent ::
  "(nat \<Rightarrow> real \<Rightarrow> string) \<Rightarrow> device \<Rightarrow> geo \<times> store \<Rightarrow> (geo \<times> store) settled" where
  "handleUseCurrent toFixed d gs =
     (case request d (fst gs) of
        (g, Rejected) \<Rightarrow> Rejected
      | (g, Fulfilled None) \<Rightarrow> Fulfilled (g, snd gs)
      | (g, Fulfilled (Some (la, lo))) \<Rightarrow>
          Fulfilled (g, activateRegion (regionFromCoordinates toFixed la lo) False (snd gs)))"


section \<open>The saved list under upsert\<close>

lemma upsert_length: "length (upsert r rs) \<le> MAX_REGIONS"
  by (simp add: upsert_def)

lemma upsert_distinct: "distinct (map id' rs) \<Longrightarrow> distinct (map id' (upsert r rs))"
proof -
  assume d: "distinct (map id' rs)"
  have "distinct (map id' (r # filter (\<lambda>item. id' item \<noteq> id' r) rs))"
    using d by (auto simp: distinct_map_filter)
  then show ?thesis
    unfolding upsert_def Let_def take_map[symmetric] by (rule distinct_take)
qed

lemma upsert_saved_ok: "saved_ok rs \<Longrightarrow> saved_ok (upsert r rs)"
  by (simp add: saved_ok_def upsert_length upsert_distinct)

lemma upsert_trace_ok: "saved_ok rs \<Longrightarrow> \<forall>xs \<in> set (upsert_trace rs us). saved_ok xs"
proof (induction us arbitrary: rs)
  case Nil
  then show ?case by simp
next
  case (Cons u us)
  from Cons.prems have "saved_ok (upsert u rs)" by (rule upsert_saved_ok)
  then have "\<forall>xs \<in> set (upsert_trace (upsert u rs) us). saved_ok xs" by (rule Cons.IH)
  with Cons.prems show ?case by simp
qed

lemma upserts_in_trace: "upserts rs us \<in> set (upsert_trace rs us)"
  by (induction us arbitrary: rs) simp_all

lemma filter_saved_ok: "saved_ok rs \<Longrightarrow> saved_ok (filter P rs)"
  unfolding saved_ok_def
  by (auto simp: distinct_map_filter intro: le_trans [OF length_filter_le])

text \<open>
  Every operation of the store keeps the saved list within the cap and free of duplicate
  ids, so a store that loads such a list never holds another kind.
\<close>

lemma reachable_saved_ok: "reachable s \<Longrightarrow> saved_ok (regions s)"
proof (induction rule: reachable.induct)
  case (loaded rs a)
  then show ?case by simp
next
  case (after_bootstrap s)
  then show ?case
    by (auto simp: bootstrap_def saved_ok_def MAX_REGIONS_def split: list.splits)
next
  case (after_activate s r persist)
  then show ?case
    by (simp add: activateRegion_def upsertRegion_def upsert_saved_ok Let_def)
next
  case (after_select s i)
  then show ?case by (simp add: selectExisting_def split: option.splits)
next
  case (after_remove s i)
  then show ?case by (simp add: removeRegion_def Let_def filter_saved_ok)
next
  case (after_persist s)
  then show ?case
    by (simp add: persistTemporary_def upsertRegion_def upsert_saved_ok split: option.splits)
next
  case (after_clear s)
  then show ?case by (auto simp: clearTemporary_def Let_def split: list.splits)
qed

text \<open>
  Claim C2. Start from a saved list of at most 6 regions with pairwise distinct ids and
  make any sequence \<open>us\<close> of \<open>upsert\<close> calls. Every list the store holds along the way,
  the first and the last included, has at most 6 entries and pairwise distinct ids.
\<close>

theorem C2_upsert_cap_invariant:
  assumes "length rs \<le> 6" and "distinct (map id' rs)"
  shows "\<forall>xs \<in> set (upsert_trace rs us). length xs \<le> 6 \<and> distinct (map id' xs)"
proof -
  from assms have "saved_ok rs" by (simp add: saved_ok_def MAX_REGIONS_def)
  then have "\<forall>xs \<in> set (upsert_trace rs us). saved_ok xs" by (rule upsert_trace_ok)
  then show ?thesis by (simp add: saved_ok_def MAX_REGIONS_def)
qed

theorem C2_upsert_cap_invariant_witness:
  "length [DEFAULT_REGION] \<le> 6 \<and> distinct (map id' [DEFAULT_REGION]) \<and>
   upsert_trace [DEFAULT_REGION] [DEFAULT_REGION\<lparr>id' := ''geo:1.000,2.000''\<rparr>, DEFAULT_REGION]
     = [[DEFAULT_REGION],
        [DEFAULT_REGION\<lparr>id' := ''geo:1.000,2.000''\<rparr>, DEFAULT_REGION],
        [DEFAULT_REGION, DEFAULT_REGION\<lparr>id' := ''geo:1.000,2.000''\<rparr>]] \<and>
   length [DEFAULT_REGION, DEFAULT_REGION\<lparr>id' := ''geo:1.000,2.000''\<rparr>] \<le> 6 \<and>
   distinct (map id' [DEFAULT_REGION, DEFAULT_REGION\<lparr>id' := ''geo:1.000,2.000''\<rparr>])"
  using C2_upsert_cap_invariant [of "[DEFAULT_REGION]"
      "[DEFAULT_REGION\<lparr>id' := ''geo:1.000,2.000''\<rparr>, DEFAULT_REGION]"]
  by (simp add: upsert_def MAX_REGIONS_def DEFAULT_REGION_def)

lemma filter_other_ids:
  "distinct (map id' rs) \<Longrightarrow> x \<in> set rs \<Longrightarrow>
     filter (\<lambda>item. id' item \<noteq> id' x) rs = remove1 x rs"
proof (induction rs)
  case Nil
  then show ?case by simp
next
  case (Cons a rs)
  from Cons.prems(1) have fresh: "id' a \<notin> id' ` set rs" by simp
  show ?case
  proof (cases "a = x")
    case True
    with fresh have "\<forall>y \<in> set rs. id' y \<noteq> id' x" by (metis imageI)
    then have "filter (\<lambda>item. id' item \<noteq> id' x) rs = rs" by (simp add: filter_id_conv)
    with True show ?thesis by simp
  next
    case False
    with Cons.prems have xin: "x \<in> set rs" by simp
    with fresh have "id' a \<noteq> id' x" by (metis imageI)
    moreover from Cons.prems(1) have "distinct (map id' rs)" by simp
    ultimately show ?thesis using Cons.IH xin False by simp
  qed
qed

lemma upsert_present:
  assumes "length rs \<le> 6" and "distinct (map id' rs)" and "x \<in> set rs" and "id' x = id' r"
  shows "upsert r rs = r # remove1 x rs \<and> length (upsert r rs) = length rs"
proof -
  have f: "filter (\<lambda>item. id' item \<noteq> id' r) rs = remove1 x rs"
    using filter_other_ids [OF assms(2,3)] assms(4) by simp
  have "length (remove1 x rs) = length rs - 1"
    using assms(3) by (simp add: length_remove1)
  moreover have "length rs > 0" using assms(3) by (cases rs) auto
  ultimately have "Suc (length (remove1 x rs)) = length rs" by simp
  with f assms(1) show ?thesis by (simp add: upsert_def MAX_REGIONS_def)
qed

text \<open>
  Claim C3. The saved-region list has at most 6 entries and pairwise distinct ids: that
  is the invariant of the data model, and every state of the store keeps it
  (\<open>reachable_saved_ok\<close>). For every such list that contains a region \<open>x\<close> with the id
  of the upserted region \<open>r\<close>, \<open>upsert\<close> gives \<open>r\<close> followed by the list without
  \<open>x\<close>, all other entries in their old order, and the length is unchanged. The same
  holds for the saved list of every state the store can be in.
\<close>

theorem C3_upsert_present_moves_to_front:
  "(length rs \<le> 6 \<and> distinct (map id' rs) \<and> x \<in> set rs \<and> id' x = id' r \<longrightarrow>
      upsert r rs = r # remove1 x rs \<and> length (upsert r rs) = length rs) \<and>
   (reachable s \<and> y \<in> set (regions s) \<and> id' y = id' r \<longrightarrow>
      regions (upsertRegion r s) = r # remove1 y (regions s) \<and>
      length (regions (upsertRegion r s)) = length (regions s))"
proof (intro conjI impI)
  assume "length rs \<le> 6 \<and> distinct (map id' rs) \<and> x \<in> set rs \<and> id' x = id' r"
  then have u: "upsert r rs = r # remove1 x rs \<and> length (upsert r rs) = length rs"
    using upsert_present by blast
  from u show "upsert r rs = r # remove1 x rs" ..
  from u show "length (upsert r rs) = length rs" ..
next
  assume h: "reachable s \<and> y \<in> set (regions s) \<and> id' y = id' r"
  then have "saved_ok (regions s)" by (simp add: reachable_saved_ok)
  then have "length (regions s) \<le> 6" and "distinct (map id' (regions s))"
    by (simp_all add: saved_ok_def MAX_REGIONS_def)
  with h have u: "upsert r (regions s) = r # remove1 y (regions s) \<and>
      length (upsert r (regions s)) = length (regions s)"
    using upsert_present by blast
  have e: "regions (upsertRegion r s) = upsert r (regions s)"
    by (simp add: upsertRegion_def)
  from u show "regions (upsertRegion r s) = r # remove1 y (regions s)"
    unfolding e by (rule conjunct1)
  from u show "length (regions (upsertRegion r s)) = length (regions s)"
    unfolding e by (rule conjunct2)
qed

theorem C3_upsert_present_moves_to_front_witness:
  "length [DEFAULT_REGION\<lparr>id' := ''geo:1.000,2.000''\<rparr>, DEFAULT_REGION] \<le> 6 \<and>
   distinct (map id' [DEFAULT_REGION\<lparr>id' := ''geo:1.000,2.000''\<rparr>, DEFAULT_REGION]) \<and>
   DEFAULT_REGION \<in> set [DEFAULT_REGION\<lparr>id' := ''geo:1.000,2.000''\<rparr>, DEFAULT_REGION] \<and>
   id' DEFAULT_REGION = id' (DEFAULT_REGION\<lparr>label := ''NYC''\<rparr>) \<and>
   upsert (DEFAULT_REGION\<lparr>label := ''NYC''\<rparr>)
       [DEFAULT_REGION\<lparr>id' := ''geo:1.000,2.000''\<rparr>, DEFAULT_REGION]
     = [DEFAULT_REGION\<lparr>label := ''NYC''\<rparr>, DEFAULT_REGION\<lparr>id' := ''geo:1.000,2.000''\<rparr>] \<and>
   reachable \<lparr> regions = [DEFAULT_REGION\<lparr>id' := ''geo:1.000,2.000''\<rparr>, DEFAULT_REGION],
               activeId = None, temporary = None \<rparr> \<and>
   regions (upsertRegion (DEFAULT_REGION\<lparr>label := ''NYC''\<rparr>)
       \<lparr> regions = [DEFAULT_REGION\<lparr>id' := ''geo:1.000,2.000''\<rparr>, DEFAULT_REGION],
         activeId = None, temporary = None \<rparr>)
     = [DEFAULT_REGION\<lparr>label := ''NYC''\<rparr>, DEFAULT_REGION\<lparr>id' := ''geo:1.000,2.000''\<rparr>]"
proof -
  have r: "reachable \<lparr> regions = [DEFAULT_REGION\<lparr>id' := ''geo:1.000,2.000''\<rparr>, DEFAULT_REGION],
      activeId = None, temporary = None \<rparr>"
    by (rule reachable.loaded) (simp add: saved_ok_def MAX_REGIONS_def DEFAULT_REGION_def)
  show ?thesis
    using r C3_upsert_present_moves_to_front
      [of "[DEFAULT_REGION\<lparr>id' := ''geo:1.000,2.000''\<rparr>, DEFAULT_REGION]"
          DEFAULT_REGION "DEFAULT_REGION\<lparr>label := ''NYC''\<rparr>"
          "\<lparr> regions = [DEFAULT_REGION\<lparr>id' := ''geo:1.000,2.000''\<rparr>, DEFAULT_REGION],
             activeId = None, temporary = None \<rparr>"
          DEFAULT_REGION]
    by (simp add: DEFAULT_REGION_def)
qed


section \<open>Reading the selection, removing a region, the first start\<close>

text \<open>
  Claim C4. Whenever a temporary selection is set, \<open>activeRegion\<close> (the spec's
  \<open>currentSelection()\<close>) returns it, whatever the saved list \<open>rs\<close> and the persisted
  active id \<open>a\<close> are.
\<close>

theorem C4_selection_precedence:
  "activeRegion \<lparr> regions = rs, activeId = a, temporary = Some t \<rparr> = Some t"
  by (simp add: activeRegion_def)

text \<open>
  Claim C5. \<open>removeRegion i\<close> filters the id \<open>i\<close> out of the saved list, keeping the
  order of the rest. When \<open>i\<close> is the active id, the active id becomes the id of the
  first region of the list after the removal, or \<open>null\<close> when that list is empty. When
  \<open>i\<close> is the id of the temporary selection, the temporary selection is cleared. This is
  the state the handler leaves; the effect \<open>bootstrap\<close> runs after it.
\<close>

theorem C5_removal_cascade:
  "(activeId s = Some i \<longrightarrow>
      regions (removeRegion i s) = filter (\<lambda>item. id' item \<noteq> i) (regions s) \<and>
      activeId (removeRegion i s) =
        (case regions (removeRegion i s) of [] \<Rightarrow> None | r # _ \<Rightarrow> Some (id' r))) \<and>
   (temporary s = Some t \<and> id' t = i \<longrightarrow> temporary (removeRegion i s) = None)"
  by (simp add: removeRegion_def Let_def split: list.splits)

theorem C5_removal_cascade_witness:
  "activeId \<lparr> regions = [DEFAULT_REGION, DEFAULT_REGION\<lparr>id' := ''geo:1.000,2.000''\<rparr>],
             activeId = Some ''default-nyc'', temporary = Some DEFAULT_REGION \<rparr>
     = Some ''default-nyc'' \<and>
   temporary \<lparr> regions = [DEFAULT_REGION, DEFAULT_REGION\<lparr>id' := ''geo:1.000,2.000''\<rparr>],
             activeId = Some ''default-nyc'', temporary = Some DEFAULT_REGION \<rparr>
     = Some DEFAULT_REGION \<and>
   id' DEFAULT_REGION = ''default-nyc'' \<and>
   removeRegion ''default-nyc''
       \<lparr> regions = [DEFAULT_REGION, DEFAULT_REGION\<lparr>id' := ''geo:1.000,2.000''\<rparr>],
         activeId = Some ''default-nyc'', temporary = Some DEFAULT_REGION \<rparr>
     = \<lparr> regions = [DEFAULT_REGION\<lparr>id' := ''geo:1.000,2.000''\<rparr>],
         activeId = Some ''geo:1.000,2.000'', temporary = None \<rparr> \<and>
   removeRegion ''default-nyc''
       \<lparr> regions = [DEFAULT_REGION], activeId = Some ''default-nyc'', temporary = None \<rparr>
     = \<lparr> regions = [], activeId = None, temporary = None \<rparr>"
  using C5_removal_cascade
    [of "\<lparr> regions = [DEFAULT_REGION, DEFAULT_REGION\<lparr>id' := ''geo:1.000,2.000''\<rparr>],
           activeId = Some ''default-nyc'', temporary = Some DEFAULT_REGION \<rparr>"
        "''default-nyc''" DEFAULT_REGION]
    C5_removal_cascade
    [of "\<lparr> regions = [DEFAULT_REGION], activeId = Some ''default-nyc'', temporary = None \<rparr>"
        "''default-nyc''" DEFAULT_REGION]
  by (simp add: removeRegion_def DEFAULT_REGION_def)

text \<open>
  Claim C6. From empty storage (no saved region, no active id, no temporary selection)
  the bootstrap effect makes \<open>DEFAULT_REGION\<close>, the New York City region with the fixed id
  \<open>default-nyc\<close>, the only saved region and the active one, so that \<open>activeRegion\<close> is
  that region; running the effect again changes nothing.
\<close>

theorem C6_bootstrap_seeds_default:
  "activeRegion (bootstrap empty_storage) = Some DEFAULT_REGION \<and>
   regions (bootstrap empty_storage) = [DEFAULT_REGION] \<and>
   activeId (bootstrap empty_storage) = Some ''default-nyc'' \<and>
   temporary (bootstrap empty_storage) = None \<and>
   bootstrap (bootstrap empty_storage) = bootstrap empty_storage"
  by (simp add: bootstrap_def empty_storage_def activeRegion_def truthy_def DEFAULT_REGION_def)

theorem C6_bootstrap_seeds_default_witness:
  "map_option id' (activeRegion (bootstrap empty_storage)) = Some ''default-nyc'' \<and>
   map_option lat (activeRegion (bootstrap empty_storage)) = Some 40.7128 \<and>
   map_option lon (activeRegion (bootstrap empty_storage)) = Some (- 74.006) \<and>
   map id' (regions (bootstrap empty_storage)) = [''default-nyc'']"
  using C6_bootstrap_seeds_default by (simp add: DEFAULT_REGION_def)

text \<open>
  The regions that become the temporary selection are built by the search panel and from
  the device's coordinates; their ids start with \<open>search-\<close> and \<open>geo:\<close> and are
  never the empty string.
\<close>

lemma temporary_ids_not_empty:
  "id' (regionFromSearch slug stamp nm lbl la lo st) \<noteq> [] \<and>
   id' (regionFromCoordinates toFixed la lo) \<noteq> []"
  by (simp add: regionFromSearch_def regionFromCoordinates_def)

text \<open>
  Claim C10. In every store state whose temporary selection is set and has the persisted
  active id as its id (ids of regions are not empty), \<open>isTemporary\<close> is false although
  \<open>activeRegion\<close> returns the temporary object. \<open>isTemporary\<close> is true exactly when a
  temporary selection exists and either no active id is set or the id of the temporary
  selection differs from the active id. For the code no active id is set when
  \<open>activeId\<close> is \<open>null\<close> or the empty string.
\<close>

theorem C10_isTemporary_same_id:
  "(temporary s = Some t \<and> activeId s = Some (id' t) \<and> id' t \<noteq> [] \<longrightarrow>
      \<not> isTemporary s \<and> activeRegion s = Some t) \<and>
   (isTemporary s \<longleftrightarrow>
      (\<exists>t. temporary s = Some t \<and>
           (activeId s = None \<or> activeId s = Some [] \<or> activeId s \<noteq> Some (id' t)))) \<and>
   (temporary s = Some t \<and> id' t \<noteq> [] \<longrightarrow>
      (isTemporary s \<longleftrightarrow> activeId s = None \<or> activeId s \<noteq> Some (id' t)))"
  by (auto simp: isTemporary_def activeRegion_def truthy_def split: option.splits)

theorem C10_isTemporary_same_id_witness:
  "temporary \<lparr> regions = [], activeId = Some ''default-nyc'', temporary = Some DEFAULT_REGION \<rparr>
     = Some DEFAULT_REGION \<and>
   activeId \<lparr> regions = [], activeId = Some ''default-nyc'', temporary = Some DEFAULT_REGION \<rparr>
     = Some (id' DEFAULT_REGION) \<and>
   id' DEFAULT_REGION \<noteq> [] \<and>
   \<not> isTemporary \<lparr> regions = [], activeId = Some ''default-nyc'', temporary = Some DEFAULT_REGION \<rparr> \<and>
   activeRegion \<lparr> regions = [], activeId = Some ''default-nyc'', temporary = Some DEFAULT_REGION \<rparr>
     = Some DEFAULT_REGION \<and>
   isTemporary \<lparr> regions = [], activeId = None, temporary = Some DEFAULT_REGION \<rparr>"
  using C10_isTemporary_same_id
    [of "\<lparr> regions = [], activeId = Some ''default-nyc'', temporary = Some DEFAULT_REGION \<rparr>"
        DEFAULT_REGION]
    C10_isTemporary_same_id
    [of "\<lparr> regions = [], activeId = None, temporary = Some DEFAULT_REGION \<rparr>"
        DEFAULT_REGION]
  by (simp add: DEFAULT_REGION_def)

section \<open>Device location\<close>

text \<open>
  Claim C9. When the device has no geolocation capability, and when it calls the failure
  callback, \<open>request\<close> stores and resolves to the fixed New York City coordinates
  (40.7128, -74.006) and leaves \<open>locating\<close> false. Whatever the device answers,
  \<open>locating\<close> is false once the request has settled, the promise is fulfilled and never
  rejected, and the dashboard's handler \<open>handleUseCurrent\<close> ends without an error.
\<close>

theorem C9_geolocation_fallback:
  "request Unsupported s =
     (s\<lparr>coords := Some (40.7128, - 74.006), locating := False\<rparr>,
      Fulfilled (Some (40.7128, - 74.006))) \<and>
   request PositionError s =
     (s\<lparr>coords := Some (40.7128, - 74.006), locating := False\<rparr>,
      Fulfilled (Some (40.7128, - 74.006))) \<and>
   locating (fst (request d s)) = False \<and>
   snd (request d s) \<noteq> Rejected \<and>
   handleUseCurrent toFixed d (s, st) \<noteq> Rejected \<and>
   handleUseCurrent toFixed PositionError (s, st) =
     Fulfilled (s\<lparr>coords := Some (40.7128, - 74.006), locating := False\<rparr>,
                activateRegion (regionFromCoordinates toFixed 40.7128 (- 74.006)) False st)"
  by (cases d) (simp_all add: request_def request_begin_def on_error_def on_position_def
      NYC_COORDINATES_def handleUseCurrent_def Let_def)


section \<open>Text search: responses and the debounce timer\<close>

lemma arrivals_append: "arrivals (xs @ ys) s = arrivals ys (arrivals xs s)"
  by (induction xs arbitrary: s) auto

text \<open>
  Claim C7, as amended. Every response that arrives is applied, whichever query it
  answers: a successful one replaces the result list by its results, a failed one empties
  it. With several requests in flight the list therefore shows the response that arrived
  last; nothing is compared with the latest issued query and no response is dropped.
\<close>

theorem C7_every_response_applied:
  "searchResults (performSearch_resume q (Ok rs) s) = rs \<and>
   searchResults (performSearch_resume q Failed s) = [] \<and>
   searchResults (arrivals (earlier @ [(q, Ok rs)]) s) = rs"
  by (simp add: arrivals_append performSearch_resume_def)

text \<open>
  Claim C7 as stated fails. Requests for \<open>ab\<close> and then \<open>abc\<close> are in flight, so
  \<open>abc\<close> is the latest issued query. The response for \<open>abc\<close> arrives first and is
  shown; the response for \<open>ab\<close> arrives after it and replaces the shown results.
\<close>

theorem C7_stale_response_counterexample:
  "latest_issued (performSearch_begin ''abc'' (performSearch_begin ''ab'' (init_panel :: string panel)))
     = Some ''abc'' \<and>
   searchResults (arrivals [(''abc'', Ok [''Abcoude''])]
     (performSearch_begin ''abc'' (performSearch_begin ''ab'' init_panel))) = [''Abcoude''] \<and>
   searchResults (arrivals [(''abc'', Ok [''Abcoude'']), (''ab'', Ok [''Abilene''])]
     (performSearch_begin ''abc'' (performSearch_begin ''ab'' init_panel))) = [''Abilene'']"
  by (simp add: latest_issued_def performSearch_begin_def performSearch_resume_def init_panel_def)

text \<open>
  A keystroke that comes strictly before the armed timer is due makes no request and arms
  the timer anew, 300 ms after the keystroke, whichever way ties are broken.
\<close>

lemma keystroke_before_due:
  "pending s = Some (due, v) \<Longrightarrow> t < due \<Longrightarrow>
     issued (handleSearchChange w (advance tb t s)) = issued s \<and>
     pending (handleSearchChange w (advance tb t s)) = Some (t + 300, w)"
  by (simp add: handleSearchChange_def advance_def)

text \<open>
  The panel debounces: for any timed keystrokes the requests it makes are those of
  \<open>due_requests\<close>. The state is generalised to any panel whose timer was armed by a
  keystroke at \<open>t\<close>.
\<close>

lemma armed_requests:
  "pending s = Some (t + 300, v) \<Longrightarrow>
     issued (timer_fire (keystrokes tb ks s)) = issued s @ due_requests tb ((t, v) # ks)"
proof (induction ks arbitrary: s t v)
  case Nil
  then show ?case by (simp add: timer_fire_def performSearch_begin_def)
next
  case (Cons k ks)
  obtain t' v' where k: "k = (t', v')" by (cases k)
  let ?s' = "handleSearchChange v' (advance tb t' s)"
  have p: "pending ?s' = Some (t' + 300, v')"
    using Cons.prems by (simp add: handleSearchChange_def advance_def)
  have i: "issued ?s' = issued s @
      (if (t + 300 < t' \<or> (t + 300 = t' \<and> tb = TimerFirst)) \<and> \<not> length v < 2
       then [(t + 300, v)] else [])"
    using Cons.prems
    by (simp add: handleSearchChange_def advance_def timer_fire_def performSearch_begin_def)
  have "issued (timer_fire (keystrokes tb ks ?s')) = issued ?s' @ due_requests tb ((t', v') # ks)"
    using p by (rule Cons.IH)
  with i k show ?case by simp
qed

lemma typing_requests: "issued (typing tb ks :: 'r panel) = due_requests tb ks"
proof (cases ks)
  case Nil
  then show ?thesis by (simp add: typing_def timer_fire_def init_panel_def)
next
  case (Cons k ks')
  obtain t v where k: "k = (t, v)" by (cases k)
  let ?s = "handleSearchChange v (advance tb t (init_panel :: 'r panel))"
  have "pending ?s = Some (t + 300, v)"
    by (simp add: handleSearchChange_def advance_def init_panel_def)
  then have "issued (timer_fire (keystrokes tb ks' ?s)) = issued ?s @ due_requests tb ((t, v) # ks')"
    by (rule armed_requests)
  moreover have "issued ?s = []"
    by (simp add: handleSearchChange_def advance_def init_panel_def)
  ultimately show ?thesis using Cons k by (simp add: typing_def)
qed

text \<open>
  Claim C8, as amended. Keystrokes at 0 ms (\<open>a\<close>), 100 ms (\<open>ab\<close>) and 400 ms (\<open>abc\<close>):
  the timer armed at 100 ms falls due at 400 ms, the instant of the third keystroke. When
  that keystroke is handled before the timer fires, exactly one request is issued, for
  \<open>abc\<close>, at 700 ms.
\<close>

theorem C8_debounce_keystroke_first:
  "issued (typing KeystrokeFirst [(0, ''a''), (100, ''ab''), (400, ''abc'')] :: string panel)
     = [(700, ''abc'')]"
  by (simp add: typing_def handleSearchChange_def advance_def timer_fire_def
      performSearch_begin_def init_panel_def)

text \<open>
  Claim C8 as stated, without a rule for the tie at 400 ms, fails: when the timer that is
  due at 400 ms fires before the third keystroke is handled, two requests are issued,
  one for \<open>ab\<close> at 400 ms and one for \<open>abc\<close> at 700 ms.
\<close>

theorem C8_debounce_timer_first_counterexample:
  "issued (typing TimerFirst [(0, ''a''), (100, ''ab''), (400, ''abc'')] :: string panel)
     = [(400, ''ab''), (700, ''abc'')]"
  by (simp add: typing_def handleSearchChange_def advance_def timer_fire_def
      performSearch_begin_def init_panel_def)

section \<open>The map view: following and panning\<close>

lemmas map_defs = step_def center_effect_def controller_effect_def setView_def
  handleMapMove_def handleRecenterMap_def following_def commit_def rerender_def
  handler_effect_def handler_cleanup_def raise_movestart_def Let_def

text \<open>
  While the controller's effect runs, no listener is registered, so a \<open>movestart\<close>
  raised by its \<open>setView\<close> reaches nobody: a commit never changes \<open>userHasPanned\<close>,
  and the surface's choice makes no difference to a step.
\<close>

lemma commit_keeps_follow_mode: "userHasPanned (commit m s) = userHasPanned s"
  by (simp add: commit_def controller_effect_def setView_def raise_movestart_def
      handler_effect_def handler_cleanup_def Let_def)

lemma commit_surface_irrelevant: "commit m s = commit False s"
  by (simp add: commit_def controller_effect_def setView_def raise_movestart_def
      handler_effect_def handler_cleanup_def Let_def)

lemma step_surface_irrelevant: "step m ev s = step False ev s"
  unfolding step_def by (subst (1 2 3 4) commit_surface_irrelevant [of m]) (rule refl)

lemma steps_surface_irrelevant: "steps m evs s = steps False evs s"
  by (induction evs arbitrary: s) (simp_all add: step_surface_irrelevant [of m])

lemma center_effect_keeps_follow_mode: "userHasPanned (center_effect s) = userHasPanned s"
  by (simp add: center_effect_def split: option.splits)

lemma step_pans_on_drag_only:
  "\<not> userHasPanned s \<Longrightarrow> userHasPanned (step m ev s) \<Longrightarrow> is_pan ev"
  by (cases ev)
    (auto simp: step_def Let_def commit_keeps_follow_mode center_effect_keeps_follow_mode
      rerender_def handler_effect_def handler_cleanup_def handleRecenterMap_def
      split: option.splits if_splits)

text \<open>Without a drag, any run of selection changes and recenters stays in \<open>FOLLOWING\<close>.\<close>

lemma steps_without_drag_follow:
  "\<not> userHasPanned s \<Longrightarrow> \<forall>ev \<in> set evs. \<not> is_pan ev \<Longrightarrow> \<not> userHasPanned (steps m evs s)"
proof (induction evs arbitrary: s)
  case Nil
  then show ?case by simp
next
  case (Cons ev evs)
  from Cons.prems have "\<not> is_pan ev" by simp
  with Cons.prems(1) have "\<not> userHasPanned (step m ev s)"
    using step_pans_on_drag_only by blast
  moreover from Cons.prems have "\<forall>e \<in> set evs. \<not> is_pan e" by simp
  ultimately show ?case using Cons.IH by simp
qed

text \<open>While \<open>PANNED\<close>, a selection change moves neither the view nor \<open>mapCenter\<close>.\<close>

lemma panned_selection_keeps_center:
  "userHasPanned s \<Longrightarrow>
     view (step m (SelectionChange c) s) = view s \<and>
     mapCenter (step m (SelectionChange c) s) = mapCenter s \<and>
     userHasPanned (step m (SelectionChange c) s)"
  unfolding step_surface_irrelevant [of m] by (simp add: map_defs)

text \<open>
  Claim C1. Start in \<open>FOLLOWING\<close> with the region at \<open>a\<close> shown. A selection change to
  \<open>b\<close> moves the view and \<open>mapCenter\<close> to \<open>b\<close> and stays in \<open>FOLLOWING\<close>. A drag to
  \<open>p\<close> then gives \<open>PANNED\<close>, and a selection change to \<open>c\<close> leaves the view at \<open>p\<close>
  and \<open>mapCenter\<close> at \<open>b\<close>. The Recenter button then moves both to \<open>c\<close> and gives
  \<open>FOLLOWING\<close> again. From any state and for any event, a step leads from
  \<open>FOLLOWING\<close> to \<open>PANNED\<close> only when the event is a drag of the user: the controller's
  own \<open>setView\<close> never does, whether or not the surface raises \<open>movestart\<close> for it.
\<close>

theorem C1_viewport_state_machine:
  "view (steps m [SelectionChange b] (following a)) = b \<and>
   mapCenter (steps m [SelectionChange b] (following a)) = b \<and>
   \<not> userHasPanned (steps m [SelectionChange b] (following a)) \<and>
   userHasPanned (steps m [SelectionChange b, UserPan p] (following a)) \<and>
   view (steps m [SelectionChange b, UserPan p, SelectionChange c] (following a)) = p \<and>
   mapCenter (steps m [SelectionChange b, UserPan p, SelectionChange c] (following a)) = b \<and>
   userHasPanned (steps m [SelectionChange b, UserPan p, SelectionChange c] (following a)) \<and>
   view (steps m [SelectionChange b, UserPan p, SelectionChange c, Recenter] (following a)) = c \<and>
   mapCenter (steps m [SelectionChange b, UserPan p, SelectionChange c, Recenter] (following a)) = c \<and>
   \<not> userHasPanned (steps m [SelectionChange b, UserPan p, SelectionChange c, Recenter] (following a)) \<and>
   (\<forall>ev s. \<not> userHasPanned s \<and> userHasPanned (step m ev s) \<longrightarrow> is_pan ev)"
proof -
  have scenario:
    "steps m [SelectionChange b, UserPan p, SelectionChange c, Recenter] (following a) =
       \<lparr> center = Some c, mapCenter = c, shouldUpdateCenter = True, userHasPanned = False,
         view = c, listening = True \<rparr>"
    "steps m [SelectionChange b, UserPan p, SelectionChange c] (following a) =
       \<lparr> center = Some c, mapCenter = b, shouldUpdateCenter = False, userHasPanned = True,
         view = p, listening = True \<rparr>"
    "steps m [SelectionChange b, UserPan p] (following a) =
       \<lparr> center = Some b, mapCenter = b, shouldUpdateCenter = False, userHasPanned = True,
         view = p, listening = True \<rparr>"
    "steps m [SelectionChange b] (following a) = following b"
    unfolding steps_surface_irrelevant [of m] by (simp_all add: map_defs)
  have "\<forall>ev s. \<not> userHasPanned s \<and> userHasPanned (step m ev s) \<longrightarrow> is_pan ev"
    using step_pans_on_drag_only by blast
  with scenario show ?thesis by (simp add: following_def)
qed

theorem C1_viewport_state_machine_witness:
  "steps True [SelectionChange (34.0522, - 118.2437)] (following (40.7128, - 74.006))
     = following (34.0522, - 118.2437) \<and>
   view (steps True [SelectionChange (34.0522, - 118.2437), UserPan (36.1699, - 115.1398),
       SelectionChange (41.8781, - 87.6298)] (following (40.7128, - 74.006)))
     = (36.1699, - 115.1398) \<and>
   userHasPanned (steps True [SelectionChange (34.0522, - 118.2437), UserPan (36.1699, - 115.1398),
       SelectionChange (41.8781, - 87.6298)] (following (40.7128, - 74.006))) \<and>
   steps True [SelectionChange (34.0522, - 118.2437), UserPan (36.1699, - 115.1398),
       SelectionChange (41.8781, - 87.6298), Recenter] (following (40.7128, - 74.006))
     = following (41.8781, - 87.6298) \<and>
   \<not> userHasPanned (following (40.7128, - 74.006)) \<and>
   userHasPanned (step True (UserPan (36.1699, - 115.1398)) (following (40.7128, - 74.006))) \<and>
   is_pan (UserPan (36.1699, - 115.1398))"
  using C1_viewport_state_machine
    [of True "(34.0522, - 118.2437)" "(40.7128, - 74.006)" "(36.1699, - 115.1398)"
        "(41.8781, - 87.6298)"]
  unfolding step_surface_irrelevant [of True] steps_surface_irrelevant [of True]
  by (simp add: map_defs)

end
